theory Spec2Isabelle
  imports Main
begin

section \<open>JavaScript numbers and strings, as far as the rotator uses them\<close>

text \<open>
  The rotation cursor is a JavaScript \<^verbatim>\<open>number\<close>. It is either the
  field \<^verbatim>\<open>currentAccountIndex\<close> or the result of
  \<^verbatim>\<open>parseInt(kvIndex, 10)\<close>, so it is always integer valued, not-a-number
  or infinite. The sign of zero is not kept: \<^verbatim>\<open>-0 < 0\<close> is false,
  \<^verbatim>\<open>-0 % n\<close> is \<^verbatim>\<open>-0\<close> and \<^verbatim>\<open>xs[-0]\<close> is
  \<^verbatim>\<open>xs[0]\<close>, so both zeros behave alike below.
\<close>

datatype number = NaN | Num int | PosInfinity | NegInfinity

definition isNaN :: "number \<Rightarrow> bool" where
  "isNaN x = (x = NaN)"

text \<open>\<^verbatim>\<open>x < 0\<close>: every comparison with NaN is false.\<close>

fun lessZero :: "number \<Rightarrow> bool" where
  "lessZero NaN = False"
| "lessZero (Num v) = (v < 0)"
| "lessZero PosInfinity = False"
| "lessZero NegInfinity = True"

text \<open>
  \<^verbatim>\<open>x + 1\<close>. Exact below \<open>2^53\<close>; the rotator adds one only to an index
  below the array length.
\<close>

fun plusOne :: "number \<Rightarrow> number" where
  "plusOne (Num v) = Num (v + 1)"
| "plusOne x = x"

text \<open>
  \<^verbatim>\<open>x % n\<close> for an array length \<open>n\<close>: NaN when the dividend is NaN or
  infinite or the divisor is zero, otherwise the remainder with the sign of the dividend.
\<close>

fun remainder :: "number \<Rightarrow> nat \<Rightarrow> number" where
  "remainder (Num v) n = (if n = 0 then NaN else Num (sgn v * (\<bar>v\<bar> mod int n)))"
| "remainder x n = NaN"

subsection \<open>Rounding an integer to a double\<close>

fun bitLength :: "nat \<Rightarrow> nat" where
  "bitLength n = (if n = 0 then 0 else Suc (bitLength (n div 2)))"

declare bitLength.simps [simp del]

text \<open>
  The Number value of a non-negative integer: exact below \<open>2^53\<close>, infinite from
  \<open>2^1024 - 2^970\<close> on (halfway between the largest double and \<open>2^1024\<close>),
  and rounded to 53 significant bits, ties to even, in between. \<open>None\<close> is infinity.
\<close>

definition roundMagnitude :: "nat \<Rightarrow> nat option" where
  "roundMagnitude a =
     (if a < 2 ^ 53 then Some a
      else if 2 ^ 1024 - 2 ^ 970 \<le> a then None
      else let e = bitLength a - 53;
               q = a div 2 ^ e;
               r = a mod 2 ^ e;
               h = 2 ^ (e - 1);
               q' = (if h < r \<or> (r = h \<and> odd q) then q + 1 else q)
           in Some (q' * 2 ^ e))"

definition toNumber :: "int \<Rightarrow> number" where
  "toNumber v =
     (case roundMagnitude (nat \<bar>v\<bar>) of
        None \<Rightarrow> if v < 0 then NegInfinity else PosInfinity
      | Some m \<Rightarrow> Num (if v < 0 then - int m else int m))"

subsection \<open>parseInt with radix 10\<close>

text \<open>
  Strings are lists of 8-bit characters, read as the code points 0 to 255. The white
  space \<^verbatim>\<open>parseInt\<close> skips is, in that range, TAB, LF, VT, FF, CR, space and
  the no-break space.
\<close>

definition isWhiteSpace :: "char \<Rightarrow> bool" where
  "isWhiteSpace c = ((of_char c :: nat) \<in> {9, 10, 11, 12, 13, 32, 160})"

definition isDigit :: "char \<Rightarrow> bool" where
  "isDigit c = (48 \<le> (of_char c :: nat) \<and> (of_char c :: nat) \<le> 57)"

definition digitValue :: "char \<Rightarrow> nat" where
  "digitValue c = of_char c - 48"

definition digitsValue :: "string \<Rightarrow> nat" where
  "digitsValue ds = foldl (\<lambda>acc c. acc * 10 + digitValue c) 0 ds"

text \<open>
  \<^verbatim>\<open>parseInt(s, 10)\<close>: skip leading white space, take one optional sign, then
  the longest run of decimal digits; NaN when that run is empty, otherwise the Number
  value of the signed integer. With radix 10 no \<^verbatim>\<open>0x\<close> prefix is stripped.
\<close>

definition parseInt10 :: "string \<Rightarrow> number" where
  "parseInt10 s =
     (let s1 = dropWhile isWhiteSpace s;
          neg = (s1 \<noteq> [] \<and> hd s1 = CHR ''-'');
          s2 = (if s1 \<noteq> [] \<and> (hd s1 = CHR ''-'' \<or> hd s1 = CHR ''+'') then tl s1 else s1);
          ds = takeWhile isDigit s2
      in if ds = [] then NaN
         else toNumber (if neg then - int (digitsValue ds) else int (digitsValue ds)))"

subsection \<open>Number.prototype.toString\<close>

definition digitChar :: "nat \<Rightarrow> char" where
  "digitChar d = char_of (48 + d)"

fun decimal :: "nat \<Rightarrow> string" where
  "decimal n = (if n < 10 then [digitChar n] else decimal (n div 10) @ [digitChar (n mod 10)])"

declare decimal.simps [simp del]

text \<open>
  Decimal digits for an integer of magnitude below \<open>10^21\<close> (JavaScript switches to
  exponent notation from there on; the rotator prints an index below the array length).
\<close>

fun toString :: "number \<Rightarrow> string" where
  "toString NaN = ''NaN''"
| "toString PosInfinity = ''Infinity''"
| "toString NegInfinity = ''-Infinity''"
| "toString (Num v) = (if v < 0 then CHR ''-'' # decimal (nat (- v)) else decimal (nat v))"

section \<open>The shared key-value store\<close>

text \<open>The interface \<^verbatim>\<open>AccountHealth\<close>; times are milliseconds since the epoch.\<close>

record AccountHealth =
  isRateLimited :: bool
  lastRateLimitTime :: int
  failureCount :: int
  cooldownEnds :: int

definition DEFAULT_COOLDOWN_MS :: int where
  "DEFAULT_COOLDOWN_MS = 60 * 1000"

text \<open>
  The two kinds of key the code uses: \<^verbatim>\<open>account_rotation_index\<close> and
  \<^verbatim>\<open>account_health_<id>\<close>.
\<close>

datatype kv_key = RotationIndexKey | AccountHealthKey int

datatype kv_request = Get kv_key | Put kv_key

text \<open>
  \<^verbatim>\<open>env.GEMINI_CLI_KV\<close>. The rotation index is stored as text. A health
  entry is JSON text written by \<^verbatim>\<open>persistHealthToKV\<close> only and read back
  with type \<^verbatim>\<open>"json"\<close>; the store keeps it decoded. Any request may raise
  (store unavailable, malformed value): \<open>raises kv n r\<close> tells whether the \<open>n\<close>-th
  request made, being \<open>r\<close>, does. A request that raises leaves the contents alone.
  An entry's \<^verbatim>\<open>expirationTtl\<close> is not kept: it removes an entry only once
  its \<^verbatim>\<open>cooldownEnds\<close> has passed, and such an entry is ignored by its one
  reader whether present or not.
\<close>

record KV =
  rotation_index :: "string option"
  account_health :: "int \<Rightarrow> AccountHealth option"
  raises :: "nat \<Rightarrow> kv_request \<Rightarrow> bool"
  requests :: nat

datatype kv_error = KVError

definition kv_get_rotation :: "KV \<Rightarrow> (kv_error + string option) \<times> KV" where
  "kv_get_rotation kv =
     (if raises kv (requests kv) (Get RotationIndexKey) then Inl KVError
      else Inr (rotation_index kv),
      kv\<lparr>requests := requests kv + 1\<rparr>)"

definition kv_put_rotation :: "string \<Rightarrow> KV \<Rightarrow> (kv_error + unit) \<times> KV" where
  "kv_put_rotation v kv =
     (if raises kv (requests kv) (Put RotationIndexKey)
      then (Inl KVError, kv\<lparr>requests := requests kv + 1\<rparr>)
      else (Inr (), kv\<lparr>rotation_index := Some v, requests := requests kv + 1\<rparr>))"

definition kv_get_health :: "int \<Rightarrow> KV \<Rightarrow> (kv_error + AccountHealth option) \<times> KV" where
  "kv_get_health accountId kv =
     (if raises kv (requests kv) (Get (AccountHealthKey accountId)) then Inl KVError
      else Inr (account_health kv accountId),
      kv\<lparr>requests := requests kv + 1\<rparr>)"

definition kv_put_health :: "int \<Rightarrow> AccountHealth \<Rightarrow> KV \<Rightarrow> (kv_error + unit) \<times> KV" where
  "kv_put_health accountId health kv =
     (if raises kv (requests kv) (Put (AccountHealthKey accountId))
      then (Inl KVError, kv\<lparr>requests := requests kv + 1\<rparr>)
      else (Inr (), kv\<lparr>account_health := (account_health kv)(accountId \<mapsto> health),
                         requests := requests kv + 1\<rparr>))"

section \<open>AccountHealthTracker\<close>

text \<open>
  The tracker's own state is the map \<^verbatim>\<open>localHealth\<close>; the store it talks to
  is passed in and returned, so that several trackers can share one store. Each method
  takes the value \<^verbatim>\<open>Date.now()\<close> gives it as \<open>now\<close>.
\<close>

type_synonym AccountHealthTracker = "int \<Rightarrow> AccountHealth option"

text \<open>\<^verbatim>\<open>Math.ceil(x / 1000)\<close> for an integer \<open>x\<close>.\<close>

definition ceilSeconds :: "int \<Rightarrow> int" where
  "ceilSeconds x = - ((- x) div 1000)"

text \<open>
  \<^verbatim>\<open>persistHealthToKV\<close>; \<open>now\<close> is its own reading of the clock. The
  caller detaches it and only logs a failure, so a write that raises changes nothing.
  The write is applied at the call (its delay is not modelled).
\<close>

definition persistHealthToKV :: "int \<Rightarrow> int \<Rightarrow> AccountHealth \<Rightarrow> KV \<Rightarrow> KV" where
  "persistHealthToKV now accountId health kv =
     (let ttl = ceilSeconds (cooldownEnds health - now)
      in if 0 < ttl then snd (kv_put_health accountId health kv) else kv)"

text \<open>\<^verbatim>\<open>localHealth.get(accountId)?.failureCount || 0\<close>\<close>

definition previousFailureCount :: "AccountHealthTracker \<Rightarrow> int \<Rightarrow> int" where
  "previousFailureCount localHealth accountId =
     (case localHealth accountId of None \<Rightarrow> 0 | Some h \<Rightarrow> failureCount h)"

text \<open>
  \<^verbatim>\<open>recordFailure\<close>; \<open>now\<close> is its reading of the clock and \<open>now'\<close> the one
  \<^verbatim>\<open>persistHealthToKV\<close> takes right after.
\<close>

definition recordFailure ::
  "int \<Rightarrow> int \<Rightarrow> int \<Rightarrow> AccountHealthTracker \<Rightarrow> KV \<Rightarrow> AccountHealthTracker \<times> KV" where
  "recordFailure now now' accountId localHealth kv =
     (let health = \<lparr>isRateLimited = True,
                    lastRateLimitTime = now,
                    failureCount = previousFailureCount localHealth accountId + 1,
                    cooldownEnds = now + DEFAULT_COOLDOWN_MS\<rparr>
      in (localHealth(accountId \<mapsto> health), persistHealthToKV now' accountId health kv))"

text \<open>The second half of \<^verbatim>\<open>isAccountHealthy\<close>: the read of the shared store.\<close>

definition checkKV ::
  "int \<Rightarrow> int \<Rightarrow> AccountHealthTracker \<Rightarrow> KV \<Rightarrow> bool \<times> AccountHealthTracker \<times> KV" where
  "checkKV now accountId localHealth kv =
     (case kv_get_health accountId kv of
        (Inl e, kv1) \<Rightarrow> (True, localHealth, kv1)
      | (Inr None, kv1) \<Rightarrow> (True, localHealth, kv1)
      | (Inr (Some kvHealth), kv1) \<Rightarrow>
          if now < cooldownEnds kvHealth
          then (False, localHealth(accountId \<mapsto> kvHealth), kv1)
          else (True, localHealth, kv1))"

definition isAccountHealthy ::
  "int \<Rightarrow> int \<Rightarrow> AccountHealthTracker \<Rightarrow> KV \<Rightarrow> bool \<times> AccountHealthTracker \<times> KV" where
  "isAccountHealthy now accountId localHealth kv =
     (case localHealth accountId of
        None \<Rightarrow> checkKV now accountId localHealth kv
      | Some localStatus \<Rightarrow>
          if now < cooldownEnds localStatus then (False, localHealth, kv)
          else checkKV now accountId
                 (if isRateLimited localStatus
                  then localHealth(accountId \<mapsto> localStatus\<lparr>isRateLimited := False\<rparr>)
                  else localHealth)
                 kv)"

definition recordSuccess :: "int \<Rightarrow> AccountHealthTracker \<Rightarrow> AccountHealthTracker" where
  "recordSuccess accountId localHealth =
     (case localHealth accountId of
        None \<Rightarrow> localHealth
      | Some current \<Rightarrow>
          if 0 < failureCount current \<and> \<not> isRateLimited current
          then localHealth(accountId \<mapsto> current\<lparr>failureCount := 0\<rparr>)
          else localHealth)"

section \<open>MultiAccountManager\<close>

text \<open>
  The class whose rotation index lives in the store (the source file also holds an
  older version that rotates a local index only). An \<^verbatim>\<open>AuthManager\<close> is
  built from \<^verbatim>\<open>(env, id, credentials)\<close>; the rotator reads its
  \<^verbatim>\<open>id\<close> only, here the field \<open>account_id\<close> (\<open>id\<close> is the identity
  function of HOL).
\<close>

record AuthManager =
  account_id :: int
  credentials :: string

record MultiAccountManager =
  accounts :: "AuthManager list"
  healthTracker :: AccountHealthTracker
  currentAccountIndex :: number

text \<open>
  What \<^verbatim>\<open>getAccount\<close> can raise: its own error for an empty pool, and the
  TypeError of reading \<^verbatim>\<open>.id\<close> of \<^verbatim>\<open>undefined\<close>.
\<close>

datatype error = NoServiceAccountsConfigured | TypeError

text \<open>
  \<^verbatim>\<open>this.accounts[i]\<close>: the element when \<open>i\<close> is an index of the array,
  \<^verbatim>\<open>undefined\<close> (\<open>None\<close>) otherwise.
\<close>

fun arrayGet :: "'a list \<Rightarrow> number \<Rightarrow> 'a option" where
  "arrayGet xs (Num i) = (if 0 \<le> i \<and> nat i < length xs then Some (xs ! nat i) else None)"
| "arrayGet xs x = None"

text \<open>
  The read of the rotation index: the stored text parsed, or the local index when the
  key is absent or the read raises.
\<close>

definition readRotationIndex :: "MultiAccountManager \<Rightarrow> KV \<Rightarrow> number \<times> KV" where
  "readRotationIndex m kv =
     (case kv_get_rotation kv of
        (Inl e, kv1) \<Rightarrow> (currentAccountIndex m, kv1)
      | (Inr None, kv1) \<Rightarrow> (currentAccountIndex m, kv1)
      | (Inr (Some kvIndex), kv1) \<Rightarrow> (parseInt10 kvIndex, kv1))"

text \<open>The two lines under \<^verbatim>\<open>// Normalize index\<close>.\<close>

definition normalizeIndex :: "number \<Rightarrow> nat \<Rightarrow> number" where
  "normalizeIndex currentIndex n =
     remainder (if isNaN currentIndex \<or> lessZero currentIndex then Num 0 else currentIndex) n"

text \<open>
  The \<^verbatim>\<open>while\<close> loop of \<^verbatim>\<open>getAccount\<close> and the return after it.
  \<open>clock k\<close> is the time the health check of attempt \<open>k\<close> reads. A write of the
  next index that raises is caught and logged.
\<close>

function scanAccounts ::
  "(nat \<Rightarrow> int) \<Rightarrow> AuthManager list \<Rightarrow> number \<Rightarrow> number \<Rightarrow> nat \<Rightarrow> AccountHealthTracker \<Rightarrow> KV
     \<Rightarrow> (error + AuthManager option) \<times> AccountHealthTracker \<times> KV" where
  "scanAccounts clock accs startIndex currentIndex attempts tracker kv =
     (if attempts < length accs then
        (case arrayGet accs currentIndex of
           None \<Rightarrow> (Inl TypeError, tracker, kv)
         | Some account \<Rightarrow>
             (let (healthy, tracker1, kv1) =
                    isAccountHealthy (clock attempts) (account_id account) tracker kv
              in if healthy
                 then (let nextIndex = remainder (plusOne currentIndex) (length accs)
                       in (Inr (Some account), tracker1,
                           snd (kv_put_rotation (toString nextIndex) kv1)))
                 else scanAccounts clock accs startIndex
                        (remainder (plusOne currentIndex) (length accs)) (attempts + 1)
                        tracker1 kv1))
      else (Inr (arrayGet accs startIndex), tracker, kv))"
  by pat_completeness auto
termination
  by (relation "measure (\<lambda>(clock, accs, startIndex, currentIndex, attempts, tracker, kv).
                           length accs - attempts)") auto

declare scanAccounts.simps [simp del]

definition getAccount ::
  "(nat \<Rightarrow> int) \<Rightarrow> MultiAccountManager \<Rightarrow> KV
     \<Rightarrow> (error + AuthManager option) \<times> MultiAccountManager \<times> KV" where
  "getAccount clock m kv =
     (if length (accounts m) = 0 then (Inl NoServiceAccountsConfigured, m, kv)
      else (let (currentIndex, kv1) = readRotationIndex m kv;
                startIndex = normalizeIndex currentIndex (length (accounts m));
                (result, tracker1, kv2) =
                   scanAccounts clock (accounts m) startIndex startIndex 0 (healthTracker m) kv1
            in (result, m\<lparr>healthTracker := tracker1\<rparr>, kv2)))"

definition reportFailure ::
  "int \<Rightarrow> int \<Rightarrow> AuthManager \<Rightarrow> int \<Rightarrow> MultiAccountManager \<Rightarrow> KV \<Rightarrow> MultiAccountManager \<times> KV" where
  "reportFailure now now' account statusCode m kv =
     (if statusCode = 429 \<or> statusCode = 503
      then (let (tracker1, kv1) = recordFailure now now' (account_id account) (healthTracker m) kv
            in (m\<lparr>healthTracker := tracker1\<rparr>, kv1))
      else (m, kv))"

section \<open>Runs and states used to state the properties\<close>

text \<open>A store with no entry in which no request raises.\<close>

definition emptyKV :: KV where
  "emptyKV = \<lparr>rotation_index = None, account_health = (\<lambda>accountId. None),
              raises = (\<lambda>n r. False), requests = 0\<rparr>"

text \<open>
  Successive calls of \<^verbatim>\<open>isAccountHealthy(accountId)\<close> at the given times, each
  on the state the one before left: the answers, in order.
\<close>

fun healthChecks :: "int list \<Rightarrow> int \<Rightarrow> AccountHealthTracker \<Rightarrow> KV \<Rightarrow> bool list" where
  "healthChecks [] accountId localHealth kv = []"
| "healthChecks (now # nows) accountId localHealth kv =
     (case isAccountHealthy now accountId localHealth kv of
        (healthy, localHealth1, kv1) \<Rightarrow> healthy # healthChecks nows accountId localHealth1 kv1)"

text \<open>
  The tracker holds a record for the account whose cooldown ends at \<open>ends\<close>, and the
  store holds none that ends later.
\<close>

definition cooldownInvariant :: "int \<Rightarrow> int \<Rightarrow> AccountHealthTracker \<Rightarrow> KV \<Rightarrow> bool" where
  "cooldownInvariant accountId ends localHealth kv =
     ((\<exists>h. localHealth accountId = Some h \<and> cooldownEnds h = ends) \<and>
      (\<forall>h. account_health kv accountId = Some h \<longrightarrow> cooldownEnds h \<le> ends))"

text \<open>
  The candidates of a scan that starts at index \<open>s\<close>, in the order the loop visits
  them: \<open>s\<close>, \<open>s + 1\<close>, ... around the array.
\<close>

definition candidates :: "AuthManager list \<Rightarrow> nat \<Rightarrow> AuthManager list" where
  "candidates accs s = map (\<lambda>i. accs ! ((s + i) mod length accs)) [0..<length accs]"

text \<open>
  The answers of \<^verbatim>\<open>isAccountHealthy\<close> for a list of accounts asked one after
  the other, the \<open>i\<close>-th at time \<open>clock (k + i)\<close>, each on the state the one before
  left.
\<close>

fun healthOfCandidates ::
  "(nat \<Rightarrow> int) \<Rightarrow> nat \<Rightarrow> AuthManager list \<Rightarrow> AccountHealthTracker \<Rightarrow> KV \<Rightarrow> bool list" where
  "healthOfCandidates clock k [] tracker kv = []"
| "healthOfCandidates clock k (account # rest) tracker kv =
     (case isAccountHealthy (clock k) (account_id account) tracker kv of
        (healthy, tracker1, kv1) \<Rightarrow> healthy # healthOfCandidates clock (k + 1) rest tracker1 kv1)"

text \<open>Successive calls of \<^verbatim>\<open>getAccount()\<close>, one per clock: what each returns.\<close>

fun getAccountCalls ::
  "(nat \<Rightarrow> int) list \<Rightarrow> MultiAccountManager \<Rightarrow> KV \<Rightarrow> (error + AuthManager option) list" where
  "getAccountCalls [] m kv = []"
| "getAccountCalls (clock # clocks) m kv =
     (case getAccount clock m kv of
        (result, m1, kv1) \<Rightarrow> result # getAccountCalls clocks m1 kv1)"

text \<open>
  No account of the pool has a record, in the tracker or in the store, whose cooldown
  ends after \<open>T\<close>.
\<close>

definition allCooledDown :: "int \<Rightarrow> AuthManager list \<Rightarrow> AccountHealthTracker \<Rightarrow> KV \<Rightarrow> bool" where
  "allCooledDown T accs tracker kv =
     (\<forall>a \<in> set accs.
        (\<forall>h. tracker (account_id a) = Some h \<longrightarrow> cooldownEnds h \<le> T) \<and>
        (\<forall>h. account_health kv (account_id a) = Some h \<longrightarrow> cooldownEnds h \<le> T))"

text \<open>
  The store's rotation index stands at \<open>c\<close>: it holds the decimal text of \<open>c\<close>, or
  nothing yet and \<open>c\<close> is 0.
\<close>

definition cursorIs :: "nat \<Rightarrow> KV \<Rightarrow> bool" where
  "cursorIs c kv =
     (rotation_index kv = Some (decimal c) \<or> (rotation_index kv = None \<and> c = 0))"

text \<open>A pool of three accounts with no failure recorded, and one of a single account.\<close>

definition threeAccounts :: MultiAccountManager where
  "threeAccounts =
     \<lparr>accounts = [\<lparr>account_id = 0, credentials = ''A0''\<rparr>,
                  \<lparr>account_id = 1, credentials = ''A1''\<rparr>,
                  \<lparr>account_id = 2, credentials = ''A2''\<rparr>],
      healthTracker = Map.empty,
      currentAccountIndex = Num 0\<rparr>"

definition oneAccount :: MultiAccountManager where
  "oneAccount =
     \<lparr>accounts = [\<lparr>account_id = 0, credentials = ''A0''\<rparr>],
      healthTracker = Map.empty,
      currentAccountIndex = Num 0\<rparr>"

text \<open>A tracker in which every account is cooling down until time 60000.\<close>

definition allLimited :: AccountHealthTracker where
  "allLimited = (\<lambda>accountId. Some \<lparr>isRateLimited = True, lastRateLimitTime = 0,
                                    failureCount = 1, cooldownEnds = 60000\<rparr>)"

text \<open>
  The operations of the tracker and of the rotator, as steps on the state of one worker
  (its manager, which owns the tracker) and the store.
\<close>

datatype operation =
    RecordFailure int int int
  | RecordSuccess int
  | IsAccountHealthy int int
  | GetAccount "nat \<Rightarrow> int"
  | ReportFailure int int AuthManager int

fun perform :: "operation \<Rightarrow> MultiAccountManager \<times> KV \<Rightarrow> MultiAccountManager \<times> KV" where
  "perform (RecordFailure now now' accountId) (m, kv) =
     (case recordFailure now now' accountId (healthTracker m) kv of
        (tracker1, kv1) \<Rightarrow> (m\<lparr>healthTracker := tracker1\<rparr>, kv1))"
| "perform (RecordSuccess accountId) (m, kv) =
     (m\<lparr>healthTracker := recordSuccess accountId (healthTracker m)\<rparr>, kv)"
| "perform (IsAccountHealthy now accountId) (m, kv) =
     (case isAccountHealthy now accountId (healthTracker m) kv of
        (healthy, tracker1, kv1) \<Rightarrow> (m\<lparr>healthTracker := tracker1\<rparr>, kv1))"
| "perform (GetAccount clock) (m, kv) = snd (getAccount clock m kv)"
| "perform (ReportFailure now now' account statusCode) (m, kv) =
     reportFailure now now' account statusCode m kv"

text \<open>An account's failure count in a worker's tracker; 0 when it has no record.\<close>

definition failureCountOf :: "MultiAccountManager \<times> KV \<Rightarrow> int \<Rightarrow> int" where
  "failureCountOf s accountId = previousFailureCount (healthTracker (fst s)) accountId"

text \<open>
  Two workers on one store. Worker A records two failures of account 1, at times 0 and
  1000. Much later worker B, whose tracker is new, records one failure of the same
  account, at time 100000. Each pair is the worker's tracker and the store after its
  last call.
\<close>

definition workerA :: "AccountHealthTracker \<times> KV" where
  "workerA = recordFailure 1000 1000 1 (fst (recordFailure 0 0 1 Map.empty emptyKV))
               (snd (recordFailure 0 0 1 Map.empty emptyKV))"

definition workerB :: "AccountHealthTracker \<times> KV" where
  "workerB = recordFailure 100000 100000 1 Map.empty (snd workerA)"

text \<open>
  A tracker whose record of account 1 counts two failures; its cooldown ended at 61000
  and a health check has cleared the flag since.
\<close>

definition cooledDown :: AccountHealthTracker where
  "cooledDown = [1 \<mapsto> \<lparr>isRateLimited = False, lastRateLimitTime = 1000, failureCount = 2,
                         cooldownEnds = 61000\<rparr>]"

section \<open>Numbers and their decimal text\<close>

lemma of_char_digitChar: "d < 10 \<Longrightarrow> (of_char (digitChar d) :: nat) = 48 + d"
  by (simp add: digitChar_def)

lemma isDigit_digitChar: "d < 10 \<Longrightarrow> isDigit (digitChar d)"
  by (simp add: isDigit_def of_char_digitChar)

lemma digitValue_digitChar: "d < 10 \<Longrightarrow> digitValue (digitChar d) = d"
  by (simp add: digitValue_def of_char_digitChar)

lemma isDigit_plain: "isDigit c \<Longrightarrow> \<not> isWhiteSpace c \<and> c \<noteq> CHR ''-'' \<and> c \<noteq> CHR ''+''"
  by (auto simp: isDigit_def isWhiteSpace_def)

lemma decimal_nonempty: "decimal n \<noteq> []"
  by (subst decimal.simps) simp

lemma decimal_digits: "c \<in> set (decimal n) \<Longrightarrow> isDigit c"
proof (induction n arbitrary: c rule: decimal.induct)
  case (1 n)
  show ?case
  proof (cases "n < 10")
    case True
    with "1.prems" show ?thesis
      by (subst (asm) decimal.simps) (simp add: isDigit_digitChar)
  next
    case False
    with "1.prems" have "c \<in> set (decimal (n div 10)) \<or> c = digitChar (n mod 10)"
      by (subst (asm) decimal.simps) auto
    with "1.IH" False show ?thesis
      by (auto simp: isDigit_digitChar)
  qed
qed

lemma digitsValue_snoc: "digitsValue (ds @ [c]) = digitsValue ds * 10 + digitValue c"
  by (simp add: digitsValue_def)

lemma digitsValue_decimal: "digitsValue (decimal n) = n"
proof (induction n rule: decimal.induct)
  case (1 n)
  show ?case
  proof (cases "n < 10")
    case True
    then show ?thesis
      by (subst decimal.simps) (simp add: digitsValue_def digitValue_digitChar)
  next
    case False
    with "1.IH" show ?thesis
      by (subst decimal.simps) (simp add: digitsValue_snoc digitValue_digitChar)
  qed
qed

lemma parseInt10_digits:
  assumes "ds \<noteq> []" and "\<forall>c \<in> set ds. isDigit c"
  shows "parseInt10 ds = toNumber (int (digitsValue ds))"
proof -
  from assms have h: "isDigit (hd ds)" by (cases ds) auto
  with assms(1) have d: "dropWhile isWhiteSpace ds = ds"
    by (cases ds) (auto dest: isDigit_plain)
  have t: "takeWhile isDigit ds = ds"
    using assms(2) by (simp add: takeWhile_eq_all_conv)
  from h have "hd ds \<noteq> CHR ''-''" and "hd ds \<noteq> CHR ''+''"
    by (auto dest: isDigit_plain)
  with assms(1) show ?thesis
    by (simp add: parseInt10_def Let_def d t)
qed

lemma parseInt10_decimal: "parseInt10 (decimal n) = toNumber (int n)"
  using parseInt10_digits [of "decimal n"] decimal_nonempty decimal_digits
  by (simp add: digitsValue_decimal)

lemma toNumber_exact: "n < 2 ^ 53 \<Longrightarrow> toNumber (int n) = Num (int n)"
  by (simp add: toNumber_def roundMagnitude_def)

lemma parseInt10_toString:
  "n < 2 ^ 53 \<Longrightarrow> parseInt10 (toString (Num (int n))) = Num (int n)"
  by (simp add: parseInt10_decimal toNumber_exact)

lemma remainder_index:
  "0 < n \<Longrightarrow> 0 \<le> v \<Longrightarrow> remainder (Num v) n = Num (int (nat v mod n))"
  by (simp add: sgn_if zmod_int)

lemma remainder_plusOne:
  "0 < n \<Longrightarrow> remainder (plusOne (Num (int c))) n = Num (int ((c + 1) mod n))"
  using remainder_index [of n "int c + 1"] by (simp add: nat_add_distrib)

lemma normalizeIndex_cases:
  assumes "0 < n"
  shows "normalizeIndex NaN n = Num 0"
    and "normalizeIndex NegInfinity n = Num 0"
    and "normalizeIndex PosInfinity n = NaN"
    and "v < 0 \<Longrightarrow> normalizeIndex (Num v) n = Num 0"
  using assms by (simp_all add: normalizeIndex_def isNaN_def)

lemma normalizeIndex_index:
  "0 < n \<Longrightarrow> 0 \<le> v \<Longrightarrow> normalizeIndex (Num v) n = Num (int (nat v mod n))"
  by (simp add: normalizeIndex_def isNaN_def remainder_index del: remainder.simps)

lemma digitsValue_zeros:
  "digitsValue (ds @ replicate n (CHR ''0'')) = digitsValue ds * 10 ^ n"
proof (induction n)
  case 0
  then show ?case by simp
next
  case (Suc n)
  have "ds @ replicate (Suc n) (CHR ''0'') = (ds @ replicate n (CHR ''0'')) @ [CHR ''0'']"
    by (simp add: replicate_append_same)
  then show ?case
    using Suc by (simp only: digitsValue_snoc) (simp add: digitValue_def)
qed

lemma pow2_1024_le: "(2::nat) ^ 1024 \<le> 10 ^ 309"
proof -
  have a: "(2::nat) ^ 93 \<le> 10 ^ 28" by simp
  have "(2::nat) ^ 1024 = (2 ^ 93) ^ 11 * 2"
    by (simp only: power_mult [symmetric] power_Suc2 [symmetric]) simp
  also have "\<dots> \<le> (10 ^ 28) ^ 11 * 10"
    by (rule mult_mono [OF power_mono [OF a]]) simp_all
  also have "\<dots> = 10 ^ 309"
    by (simp only: power_mult [symmetric] power_Suc2 [symmetric]) simp
  finally show ?thesis .
qed

lemma roundMagnitude_overflow:
  assumes "2 ^ 1024 - 2 ^ 970 \<le> a"
  shows "roundMagnitude a = None"
proof -
  have "(2::nat) ^ 53 \<le> 2 ^ 970" by (rule power_increasing) simp_all
  moreover have "(2::nat) ^ 970 + 2 ^ 970 = 2 ^ 971" by (simp only: mult_2 [symmetric] power_Suc [symmetric]) simp
  moreover have "(2::nat) ^ 971 \<le> 2 ^ 1024" by (rule power_increasing) simp_all
  ultimately have "(2::nat) ^ 53 \<le> 2 ^ 1024 - 2 ^ 970" by linarith
  with assms have "\<not> a < 2 ^ 53" by linarith
  with assms show ?thesis by (simp only: roundMagnitude_def if_True if_False)
qed

lemma toNumber_overflow: "2 ^ 1024 - 2 ^ 970 \<le> a \<Longrightarrow> toNumber (int a) = PosInfinity"
  by (simp add: toNumber_def roundMagnitude_overflow)

lemma parseInt10_overflow:
  "parseInt10 (CHR ''1'' # replicate 309 (CHR ''0'')) = PosInfinity"
proof -
  let ?ds = "CHR ''1'' # replicate 309 (CHR ''0'')"
  have "digitsValue ?ds = 10 ^ 309"
    using digitsValue_zeros [of "[CHR ''1'']" 309] by (simp add: digitsValue_def digitValue_def)
  with pow2_1024_le have big: "2 ^ 1024 - 2 ^ 970 \<le> digitsValue ?ds"
    by (simp only: le_trans [OF diff_le_self])
  have "\<forall>c \<in> set ?ds. isDigit c" by (auto simp: isDigit_def)
  then have "parseInt10 ?ds = toNumber (int (digitsValue ?ds))"
    by (intro parseInt10_digits) simp_all
  also have "\<dots> = PosInfinity"
    by (rule toNumber_overflow [OF big])
  finally show ?thesis .
qed

section \<open>The store and the tracker\<close>

lemma kv_get_health_contents [simp]:
  "account_health (snd (kv_get_health accountId kv)) = account_health kv"
  "rotation_index (snd (kv_get_health accountId kv)) = rotation_index kv"
  "raises (snd (kv_get_health accountId kv)) = raises kv"
  "requests (snd (kv_get_health accountId kv)) = requests kv + 1"
  by (simp_all add: kv_get_health_def)

text \<open>What the read of the shared store answers, by cases.\<close>

lemma checkKV_cases:
  "checkKV now accountId localHealth kv =
     (if \<not> raises kv (requests kv) (Get (AccountHealthKey accountId)) \<and>
         (\<exists>h. account_health kv accountId = Some h \<and> now < cooldownEnds h)
      then (False, localHealth(accountId \<mapsto> the (account_health kv accountId)),
            kv\<lparr>requests := requests kv + 1\<rparr>)
      else (True, localHealth, kv\<lparr>requests := requests kv + 1\<rparr>))"
  by (auto simp: checkKV_def kv_get_health_def split: option.splits)

lemma recordFailure_local:
  "fst (recordFailure now now' accountId localHealth kv) =
     localHealth(accountId \<mapsto> \<lparr>isRateLimited = True, lastRateLimitTime = now,
        failureCount = previousFailureCount localHealth accountId + 1,
        cooldownEnds = now + 60 * 1000\<rparr>)"
  by (simp add: recordFailure_def DEFAULT_COOLDOWN_MS_def Let_def)

lemma isAccountHealthy_store:
  assumes "isAccountHealthy now accountId tracker kv = (healthy, tracker1, kv1)"
  shows "rotation_index kv1 = rotation_index kv"
    and "raises kv1 = raises kv"
    and "account_health kv1 = account_health kv"
  using assms
  by (auto simp: isAccountHealthy_def checkKV_cases split: option.splits if_splits)

subsection \<open>The record a failure leaves\<close>

text \<open>
  Claim C4. \<^verbatim>\<open>recordFailure(id)\<close> at time \<open>now\<close> sets the local record to
  rate limited, last failure at \<open>now\<close>, the previous failure count (0 when there was
  no record) plus one, and a cooldown that ends 60 seconds after \<open>now\<close>. A second call
  at a time \<open>later\<close>, inside the first cooldown or not, leaves the previous count plus
  two (so 2 for an account that had no record) and a cooldown that ends 60 seconds
  after \<open>later\<close>, whatever the first call's time was.
\<close>

theorem recordFailure_sets_record:
  "fst (recordFailure now now' accountId localHealth kv) accountId =
     Some \<lparr>isRateLimited = True, lastRateLimitTime = now,
           failureCount = (case localHealth accountId of None \<Rightarrow> 0 | Some h \<Rightarrow> failureCount h) + 1,
           cooldownEnds = now + 60 * 1000\<rparr>
   \<and> fst (recordFailure later later' accountId
            (fst (recordFailure now now' accountId localHealth kv))
            (snd (recordFailure now now' accountId localHealth kv))) accountId =
     Some \<lparr>isRateLimited = True, lastRateLimitTime = later,
           failureCount = (case localHealth accountId of None \<Rightarrow> 0 | Some h \<Rightarrow> failureCount h) + 2,
           cooldownEnds = later + 60 * 1000\<rparr>"
  by (simp add: recordFailure_local previousFailureCount_def)

theorem recordFailure_sets_record_witness:
  "fst (recordFailure 0 0 1 Map.empty emptyKV) 1 =
     Some \<lparr>isRateLimited = True, lastRateLimitTime = 0, failureCount = 1,
           cooldownEnds = 60000\<rparr> \<and>
   fst (recordFailure 30000 30000 1 (fst (recordFailure 0 0 1 Map.empty emptyKV))
          (snd (recordFailure 0 0 1 Map.empty emptyKV))) 1 =
     Some \<lparr>isRateLimited = True, lastRateLimitTime = 30000, failureCount = 2,
           cooldownEnds = 90000\<rparr>"
  using recordFailure_sets_record [of 0 0 1 Map.empty emptyKV 30000 30000]
  by simp

subsection \<open>The cooldown window\<close>

lemma isAccountHealthy_cooldownInvariant:
  assumes "cooldownInvariant accountId ends localHealth kv"
      and "isAccountHealthy now accountId localHealth kv = (healthy, localHealth1, kv1)"
  shows "healthy = (ends \<le> now) \<and> cooldownInvariant accountId ends localHealth1 kv1"
  using assms
  by (auto simp: cooldownInvariant_def isAccountHealthy_def checkKV_cases
           split: option.splits if_splits)

lemma healthChecks_cooldownInvariant:
  "cooldownInvariant accountId ends localHealth kv \<Longrightarrow>
   healthChecks nows accountId localHealth kv = map (\<lambda>now. ends \<le> now) nows"
proof (induction nows arbitrary: localHealth kv)
  case Nil
  then show ?case by simp
next
  case (Cons now nows)
  obtain healthy localHealth1 kv1
    where step: "isAccountHealthy now accountId localHealth kv = (healthy, localHealth1, kv1)"
    by (cases "isAccountHealthy now accountId localHealth kv") auto
  from isAccountHealthy_cooldownInvariant [OF Cons.prems step]
  have "healthy = (ends \<le> now)" and "cooldownInvariant accountId ends localHealth1 kv1"
    by simp_all
  with Cons.IH [of localHealth1 kv1] step show ?case by simp
qed

lemma recordFailure_cooldownInvariant:
  assumes "account_health kv accountId = None"
      and "recordFailure t t' accountId localHealth kv = (localHealth1, kv1)"
  shows "cooldownInvariant accountId (t + 60 * 1000) localHealth1 kv1"
proof -
  have l: "localHealth1 = fst (recordFailure t t' accountId localHealth kv)"
    and k: "kv1 = snd (recordFailure t t' accountId localHealth kv)"
    using assms(2) by simp_all
  have "account_health kv1 accountId = None \<or>
        (\<exists>h. account_health kv1 accountId = Some h \<and> cooldownEnds h = t + 60 * 1000)"
    using assms(1) unfolding k
    by (auto simp: recordFailure_def persistHealthToKV_def kv_put_health_def Let_def
                   DEFAULT_COOLDOWN_MS_def)
  then show ?thesis
    unfolding cooldownInvariant_def l recordFailure_local by auto
qed

text \<open>
  Claim C3. The store holds no record for the account when
  \<^verbatim>\<open>recordFailure(id)\<close> runs at time \<open>t\<close>. Then, of any number of
  \<^verbatim>\<open>isAccountHealthy(id)\<close> calls that follow, with no failure recorded in
  between and whatever store requests raise, each one made at a time before
  \<open>t + 60 s\<close> answers false and each one made at \<open>t + 60 s\<close> or later answers true.
\<close>

theorem cooldown_window:
  assumes "account_health kv accountId = None"
      and "recordFailure t t' accountId localHealth kv = (localHealth1, kv1)"
  shows "healthChecks nows accountId localHealth1 kv1 = map (\<lambda>now. t + 60 * 1000 \<le> now) nows"
  by (rule healthChecks_cooldownInvariant [OF recordFailure_cooldownInvariant [OF assms]])

theorem cooldown_window_witness:
  "account_health emptyKV 1 = None \<and>
   healthChecks [30000, 59999, 60000, 61000, 30000] 1
      (fst (recordFailure 0 0 1 Map.empty emptyKV)) (snd (recordFailure 0 0 1 Map.empty emptyKV))
     = [False, False, True, True, False]"
  using cooldown_window [of emptyKV 1 0 0 Map.empty
          "fst (recordFailure 0 0 1 Map.empty emptyKV)"
          "snd (recordFailure 0 0 1 Map.empty emptyKV)" "[30000, 59999, 60000, 61000, 30000]"]
  by (simp add: emptyKV_def)

subsection \<open>Failing open\<close>

text \<open>
  Claim C5. \<^verbatim>\<open>isAccountHealthy(id)\<close> makes one request to the shared
  store, its read, exactly when the tracker has no record of the account that is still
  cooling down, and no request otherwise (it then answers false at once). When that
  read raises, the call answers true; the answer is a boolean and nothing is raised in
  either case.
\<close>

theorem isAccountHealthy_fails_open:
  assumes "raises kv (requests kv) (Get (AccountHealthKey accountId))"
      and "isAccountHealthy now accountId localHealth kv = (healthy, localHealth1, kv1)"
  shows "(requests kv1 = requests kv + 1
            \<longleftrightarrow> (\<forall>h. localHealth accountId = Some h \<longrightarrow> cooldownEnds h \<le> now))
       \<and> (requests kv1 = requests kv \<or> requests kv1 = requests kv + 1)
       \<and> (requests kv1 = requests kv + 1 \<longrightarrow> healthy)"
  using assms
  by (auto simp: isAccountHealthy_def checkKV_cases split: option.splits if_splits)

theorem isAccountHealthy_fails_open_witness:
  "raises (emptyKV\<lparr>raises := (\<lambda>n r. True)\<rparr>) (requests (emptyKV\<lparr>raises := (\<lambda>n r. True)\<rparr>))
      (Get (AccountHealthKey 1)) \<and>
   isAccountHealthy 61000 1 (fst (recordFailure 0 0 1 Map.empty emptyKV))
      (emptyKV\<lparr>raises := (\<lambda>n r. True)\<rparr>) =
     (True,
      (fst (recordFailure 0 0 1 Map.empty emptyKV))
        (1 \<mapsto> \<lparr>isRateLimited = False, lastRateLimitTime = 0, failureCount = 1,
                cooldownEnds = 60000\<rparr>),
      emptyKV\<lparr>raises := (\<lambda>n r. True), requests := 1\<rparr>)"
proof -
  let ?kv = "emptyKV\<lparr>raises := (\<lambda>n r. True)\<rparr>"
  let ?lh = "fst (recordFailure 0 0 1 Map.empty emptyKV)"
  let ?lh1 = "?lh(1 \<mapsto> \<lparr>isRateLimited = False, lastRateLimitTime = 0, failureCount = 1,
                cooldownEnds = 60000\<rparr>)"
  let ?kv1 = "emptyKV\<lparr>raises := (\<lambda>n r. True), requests := 1\<rparr>"
  obtain healthy where
    step: "isAccountHealthy 61000 1 ?lh ?kv = (healthy, ?lh1, ?kv1)"
    by (simp add: isAccountHealthy_def checkKV_cases recordFailure_local emptyKV_def
                  previousFailureCount_def)
  have r: "raises ?kv (requests ?kv) (Get (AccountHealthKey 1))"
    by simp
  have made: "requests ?kv1 = requests ?kv + 1"
    by (simp add: emptyKV_def)
  from isAccountHealthy_fails_open [OF r step] made have healthy
    by blast
  with step r show ?thesis
    by simp
qed

section \<open>The scan of getAccount\<close>

lemma candidates_from:
  "map (\<lambda>i. accs ! ((c + i) mod n)) [0..<Suc d] =
     accs ! (c mod n) # map (\<lambda>i. accs ! (((c + 1) mod n + i) mod n)) [0..<d]"
  by (simp only: map_upt_Suc) (simp add: mod_add_left_eq)

text \<open>What the loop returns: the first candidate that answers healthy, else the start.\<close>

lemma scanAccounts_result:
  assumes "c < length accs" and "d = length accs - k"
  shows "fst (scanAccounts clock accs startIndex (Num (int c)) k tracker kv) =
     (let rs = healthOfCandidates clock k
                 (map (\<lambda>i. accs ! ((c + i) mod length accs)) [0..<d]) tracker kv;
          j = length (takeWhile Not rs)
      in if j < d then Inr (Some (accs ! ((c + j) mod length accs)))
         else Inr (arrayGet accs startIndex))"
  using assms
proof (induction d arbitrary: c k tracker kv)
  case 0
  then show ?case
    by (subst scanAccounts.simps) simp
next
  case (Suc d)
  let ?n = "length accs"
  from Suc.prems have k: "k < ?n" and n: "0 < ?n" by auto
  obtain healthy tracker1 kv1 where
    h: "isAccountHealthy (clock k) (account_id (accs ! c)) tracker kv = (healthy, tracker1, kv1)"
    by (cases "isAccountHealthy (clock k) (account_id (accs ! c)) tracker kv") auto
  have c: "c mod ?n = c" using Suc.prems by simp
  show ?case
  proof (cases healthy)
    case True
    with h k Suc.prems(1) show ?thesis
      by (subst scanAccounts.simps)
         (simp add: candidates_from c Let_def del: upt_Suc)
  next
    case False
    have c': "(c + 1) mod ?n < ?n" using n by simp
    have d: "d = ?n - (k + 1)" using Suc.prems by simp
    note IH = Suc.IH [OF c' d, of tracker1 kv1]
    have step: "scanAccounts clock accs startIndex (Num (int c)) k tracker kv =
          scanAccounts clock accs startIndex (Num (int ((c + 1) mod ?n))) (k + 1) tracker1 kv1"
      using h k False Suc.prems(1) n
      by (subst scanAccounts.simps) (simp add: remainder_plusOne del: remainder.simps plusOne.simps)
    show ?thesis
      unfolding step IH using h False
      by (simp add: candidates_from c Let_def mod_add_left_eq del: upt_Suc)
  qed
qed

lemma length_healthOfCandidates [simp]:
  "length (healthOfCandidates clock k accs tracker kv) = length accs"
  by (induction accs arbitrary: k tracker kv) (auto split: prod.splits)

lemma normalizeIndex_range:
  assumes "0 < n" and "normalizeIndex x n = Num s"
  shows "0 \<le> s \<and> nat s < n"
proof (cases x)
  case (Num v)
  show ?thesis
  proof (cases "v < 0")
    case True
    with assms Num show ?thesis by (simp add: normalizeIndex_cases)
  next
    case False
    with assms Num show ?thesis by (auto simp: normalizeIndex_index)
  qed
qed (use assms in \<open>simp_all add: normalizeIndex_cases\<close>)

lemma normalizeIndex_finite:
  assumes "0 < n" and "x \<noteq> PosInfinity"
  shows "\<exists>s < n. normalizeIndex x n = Num (int s)"
proof (cases x)
  case (Num v)
  with assms show ?thesis
    by (cases "v < 0") (auto simp: normalizeIndex_cases normalizeIndex_index)
qed (use assms in \<open>auto simp: normalizeIndex_cases\<close>)

text \<open>What a call returns once the start index is in range.\<close>

lemma getAccount_result:
  assumes "accounts m \<noteq> []"
      and "readRotationIndex m kv = (currentIndex, kv1)"
      and "normalizeIndex currentIndex (length (accounts m)) = Num (int s)"
  shows "s < length (accounts m) \<and>
         fst (getAccount clock m kv) =
           (let rs = healthOfCandidates clock 0 (candidates (accounts m) s) (healthTracker m) kv1;
                j = length (takeWhile Not rs)
            in Inr (Some (accounts m ! (if j < length (accounts m)
                                        then (s + j) mod length (accounts m) else s))))"
proof -
  let ?n = "length (accounts m)"
  from assms(1) have n: "0 < ?n" by simp
  from normalizeIndex_range [OF n assms(3)] have s: "s < ?n" by simp
  have "fst (getAccount clock m kv) =
          fst (scanAccounts clock (accounts m) (Num (int s)) (Num (int s)) 0 (healthTracker m) kv1)"
    using assms by (simp add: getAccount_def split_beta Let_def)
  also have "\<dots> =
     (let rs = healthOfCandidates clock 0 (candidates (accounts m) s) (healthTracker m) kv1;
          j = length (takeWhile Not rs)
      in if j < ?n then Inr (Some (accounts m ! ((s + j) mod ?n)))
         else Inr (arrayGet (accounts m) (Num (int s))))"
    using scanAccounts_result [OF s, of ?n 0 clock "Num (int s)" "healthTracker m" kv1]
    by (simp add: candidates_def)
  finally show ?thesis
    using s by (simp add: Let_def)
qed

text \<open>
  No operation assigns the pool or the local index: the index stays what the
  constructor made it, 0.
\<close>

lemma getAccount_keeps_pool:
  "accounts (fst (snd (getAccount clock m kv))) = accounts m \<and>
   currentAccountIndex (fst (snd (getAccount clock m kv))) = currentAccountIndex m"
  by (simp add: getAccount_def split_beta Let_def)

lemma perform_keeps_pool:
  "accounts (fst (perform op (m, kv))) = accounts m \<and>
   currentAccountIndex (fst (perform op (m, kv))) = currentAccountIndex m"
  by (cases op) (simp_all add: split_beta reportFailure_def getAccount_keeps_pool)

section \<open>The rotator\<close>

subsection \<open>Every candidate unhealthy\<close>

text \<open>
  Claim C2. The pool is not empty and the rotation index read and normalized before the
  scan is the index \<open>s\<close>. If \<^verbatim>\<open>isAccountHealthy\<close> answers false for each of
  the candidates of the scan, asked in scan order from \<open>s\<close>, then
  \<^verbatim>\<open>getAccount()\<close> raises nothing and returns the account at \<open>s\<close>.
\<close>

theorem getAccount_all_unhealthy:
  assumes "accounts m \<noteq> []"
      and "readRotationIndex m kv = (currentIndex, kv1)"
      and "normalizeIndex currentIndex (length (accounts m)) = Num (int s)"
      and "\<forall>healthy \<in> set (healthOfCandidates clock 0 (candidates (accounts m) s)
                              (healthTracker m) kv1). \<not> healthy"
  shows "fst (getAccount clock m kv) = Inr (Some (accounts m ! s))"
proof -
  let ?rs = "healthOfCandidates clock 0 (candidates (accounts m) s) (healthTracker m) kv1"
  from assms(4) have t: "takeWhile Not ?rs = ?rs"
    by (simp add: takeWhile_eq_all_conv)
  have "length (takeWhile Not ?rs) = length (accounts m)"
    unfolding t by (simp add: candidates_def)
  with getAccount_result [OF assms(1-3), of clock] show ?thesis
    by (simp add: Let_def)
qed

theorem getAccount_all_unhealthy_witness:
  "accounts (threeAccounts\<lparr>healthTracker := allLimited\<rparr>) \<noteq> [] \<and>
   readRotationIndex (threeAccounts\<lparr>healthTracker := allLimited\<rparr>)
      (emptyKV\<lparr>rotation_index := Some ''2''\<rparr>) =
     (Num 2, emptyKV\<lparr>rotation_index := Some ''2'', requests := 1\<rparr>) \<and>
   normalizeIndex (Num 2) 3 = Num 2 \<and>
   healthOfCandidates (\<lambda>k. 1000) 0
      (candidates (accounts (threeAccounts\<lparr>healthTracker := allLimited\<rparr>)) 2) allLimited
      (emptyKV\<lparr>rotation_index := Some ''2'', requests := 1\<rparr>) = [False, False, False] \<and>
   fst (getAccount (\<lambda>k. 1000) (threeAccounts\<lparr>healthTracker := allLimited\<rparr>)
          (emptyKV\<lparr>rotation_index := Some ''2''\<rparr>)) =
     Inr (Some \<lparr>account_id = 2, credentials = ''A2''\<rparr>)"
proof -
  let ?m = "threeAccounts\<lparr>healthTracker := allLimited\<rparr>"
  let ?kv = "emptyKV\<lparr>rotation_index := Some ''2''\<rparr>"
  let ?kv1 = "emptyKV\<lparr>rotation_index := Some ''2'', requests := 1\<rparr>"
  have a: "accounts ?m \<noteq> []"
    by (simp add: threeAccounts_def)
  have p: "parseInt10 ''2'' = Num 2"
    by (simp add: parseInt10_def isWhiteSpace_def isDigit_def digitsValue_def digitValue_def
                  toNumber_def roundMagnitude_def)
  have r: "readRotationIndex ?m ?kv = (Num 2, ?kv1)"
    by (simp add: readRotationIndex_def kv_get_rotation_def emptyKV_def p)
  have n: "normalizeIndex (Num 2) (length (accounts ?m)) = Num (int 2)"
    by (simp add: normalizeIndex_def isNaN_def threeAccounts_def)
  have h: "healthOfCandidates (\<lambda>k. 1000) 0 (candidates (accounts ?m) 2) (healthTracker ?m) ?kv1
             = [False, False, False]"
    by (simp add: candidates_def threeAccounts_def allLimited_def isAccountHealthy_def)
  then have all: "\<forall>healthy \<in> set (healthOfCandidates (\<lambda>k. 1000) 0 (candidates (accounts ?m) 2)
                      (healthTracker ?m) ?kv1). \<not> healthy"
    by simp
  have n3: "normalizeIndex (Num 2) 3 = Num 2"
    by (simp add: normalizeIndex_def isNaN_def)
  from getAccount_all_unhealthy [OF a r n all] a r n3 h show ?thesis
    by (simp add: threeAccounts_def)
qed

subsection \<open>A write of the next index that raises\<close>

lemma scanAccounts_put_raises:
  assumes "\<forall>n. raises kv n (Put RotationIndexKey)" and "d = length accs - k"
  shows "rotation_index (snd (snd (scanAccounts clock accs startIndex currentIndex k tracker kv)))
           = rotation_index kv"
  using assms
proof (induction d arbitrary: currentIndex k tracker kv)
  case 0
  then show ?case
    by (subst scanAccounts.simps) simp
next
  case (Suc d)
  then have k: "k < length accs" by simp
  show ?case
  proof (cases "arrayGet accs currentIndex")
    case None
    with k show ?thesis
      by (subst scanAccounts.simps) simp
  next
    case (Some account)
    obtain healthy tracker1 kv1 where
      h: "isAccountHealthy (clock k) (account_id account) tracker kv = (healthy, tracker1, kv1)"
      by (cases "isAccountHealthy (clock k) (account_id account) tracker kv") auto
    note st = isAccountHealthy_store [OF h]
    show ?thesis
    proof (cases healthy)
      case True
      with k Some h st Suc.prems(1) show ?thesis
        by (subst scanAccounts.simps) (simp add: kv_put_rotation_def)
    next
      case False
      have d: "d = length accs - (k + 1)" using Suc.prems by simp
      have r: "\<forall>n. raises kv1 n (Put RotationIndexKey)"
        using Suc.prems(1) st by simp
      from Suc.IH [OF r d] k Some h False st show ?thesis
        by (subst scanAccounts.simps) simp
    qed
  qed
qed

text \<open>
  Claim C10. The pool is not empty and the scan starts at the index \<open>s\<close>; its first
  \<open>j\<close> candidates answer unhealthy and the next one, at index \<open>(s + j) mod N\<close>,
  answers healthy. If every write of the rotation index raises, \<^verbatim>\<open>getAccount()\<close>
  still returns the account at that index, raises nothing, and leaves the stored index
  as it was.
\<close>

theorem getAccount_put_raises:
  assumes "accounts m \<noteq> []"
      and "readRotationIndex m kv = (currentIndex, kv1)"
      and "normalizeIndex currentIndex (length (accounts m)) = Num (int s)"
      and "healthOfCandidates clock 0 (candidates (accounts m) s) (healthTracker m) kv1
             = replicate j False @ True # rest"
      and "\<forall>n. raises kv n (Put RotationIndexKey)"
  shows "fst (getAccount clock m kv) = Inr (Some (accounts m ! ((s + j) mod length (accounts m))))
       \<and> rotation_index (snd (snd (getAccount clock m kv))) = rotation_index kv"
proof -
  let ?n = "length (accounts m)"
  let ?rs = "healthOfCandidates clock 0 (candidates (accounts m) s) (healthTracker m) kv1"
  have "length ?rs = ?n" by (simp add: candidates_def)
  with assms(4) have j: "j < ?n" by simp
  have "takeWhile Not ?rs = replicate j False"
    unfolding assms(4) by (induction j) simp_all
  then have "length (takeWhile Not ?rs) = j" by simp
  with getAccount_result [OF assms(1-3), of clock] j
  have ret: "fst (getAccount clock m kv) = Inr (Some (accounts m ! ((s + j) mod ?n)))"
    by (simp add: Let_def)
  have kv1: "rotation_index kv1 = rotation_index kv" "raises kv1 = raises kv"
    using assms(2)
    by (auto simp: readRotationIndex_def kv_get_rotation_def split: if_splits option.splits)
  have "snd (snd (getAccount clock m kv)) =
          snd (snd (scanAccounts clock (accounts m) (Num (int s)) (Num (int s)) 0
                      (healthTracker m) kv1))"
    using assms(1-3) by (simp add: getAccount_def split_beta Let_def)
  moreover have "rotation_index (snd (snd (scanAccounts clock (accounts m) (Num (int s))
                    (Num (int s)) 0 (healthTracker m) kv1))) = rotation_index kv1"
    by (rule scanAccounts_put_raises [where d = ?n]) (use assms(5) kv1 in simp_all)
  ultimately show ?thesis
    using ret kv1 by simp
qed

theorem getAccount_put_raises_witness:
  "accounts threeAccounts \<noteq> [] \<and>
   readRotationIndex threeAccounts (emptyKV\<lparr>raises := (\<lambda>n r. r = Put RotationIndexKey)\<rparr>) =
     (Num 0, emptyKV\<lparr>raises := (\<lambda>n r. r = Put RotationIndexKey), requests := 1\<rparr>) \<and>
   normalizeIndex (Num 0) 3 = Num 0 \<and>
   healthOfCandidates (\<lambda>k. 1000) 0 (candidates (accounts threeAccounts) 0)
      (healthTracker threeAccounts)
      (emptyKV\<lparr>raises := (\<lambda>n r. r = Put RotationIndexKey), requests := 1\<rparr>)
     = [True, True, True] \<and>
   fst (getAccount (\<lambda>k. 1000) threeAccounts
          (emptyKV\<lparr>raises := (\<lambda>n r. r = Put RotationIndexKey)\<rparr>)) =
     Inr (Some \<lparr>account_id = 0, credentials = ''A0''\<rparr>) \<and>
   rotation_index (snd (snd (getAccount (\<lambda>k. 1000) threeAccounts
          (emptyKV\<lparr>raises := (\<lambda>n r. r = Put RotationIndexKey)\<rparr>)))) = None"
proof -
  let ?m = "threeAccounts"
  let ?kv = "emptyKV\<lparr>raises := (\<lambda>n r. r = Put RotationIndexKey)\<rparr>"
  let ?kv1 = "emptyKV\<lparr>raises := (\<lambda>n r. r = Put RotationIndexKey), requests := 1\<rparr>"
  have a: "accounts ?m \<noteq> []"
    by (simp add: threeAccounts_def)
  have r: "readRotationIndex ?m ?kv = (Num 0, ?kv1)"
    by (simp add: readRotationIndex_def kv_get_rotation_def emptyKV_def threeAccounts_def)
  have n: "normalizeIndex (Num 0) (length (accounts ?m)) = Num (int 0)"
    by (simp add: normalizeIndex_def isNaN_def threeAccounts_def)
  have n3: "normalizeIndex (Num 0) 3 = Num 0"
    by (simp add: normalizeIndex_def isNaN_def)
  have h: "healthOfCandidates (\<lambda>k. 1000) 0 (candidates (accounts ?m) 0) (healthTracker ?m) ?kv1
             = [True, True, True]"
    by (simp add: candidates_def threeAccounts_def isAccountHealthy_def checkKV_cases emptyKV_def)
  then have h': "healthOfCandidates (\<lambda>k. 1000) 0 (candidates (accounts ?m) 0) (healthTracker ?m) ?kv1
             = replicate 0 False @ True # [True, True]"
    by simp
  have p: "\<forall>n. raises ?kv n (Put RotationIndexKey)"
    by simp
  from getAccount_put_raises [OF a r n h' p] a r n3 h show ?thesis
    by (simp add: threeAccounts_def emptyKV_def)
qed

subsection \<open>The start index of a scan\<close>

lemma parseInt10_7: "parseInt10 ''7'' = Num 7"
  by (simp add: parseInt10_def isWhiteSpace_def isDigit_def digitsValue_def digitValue_def
                toNumber_def roundMagnitude_def)

text \<open>
  Claim C8 says that a stored index out of range is treated as 0. With three accounts
  and the text \<^verbatim>\<open>7\<close> in the store, the scan starts at \<open>7 mod 3 = 1\<close> and the
  call returns the account at index 1, not the one at index 0.
\<close>

theorem out_of_range_cursor_counterexample:
  "normalizeIndex (fst (readRotationIndex threeAccounts (emptyKV\<lparr>rotation_index := Some ''7''\<rparr>)))
      (length (accounts threeAccounts)) = Num 1 \<and>
   fst (getAccount (\<lambda>k. 1000) threeAccounts (emptyKV\<lparr>rotation_index := Some ''7''\<rparr>)) =
     Inr (Some \<lparr>account_id = 1, credentials = ''A1''\<rparr>)"
proof -
  let ?kv = "emptyKV\<lparr>rotation_index := Some ''7''\<rparr>"
  let ?kv1 = "emptyKV\<lparr>rotation_index := Some ''7'', requests := 1\<rparr>"
  have a: "accounts threeAccounts \<noteq> []"
    by (simp add: threeAccounts_def)
  have r: "readRotationIndex threeAccounts ?kv = (Num 7, ?kv1)"
    by (simp add: readRotationIndex_def kv_get_rotation_def emptyKV_def parseInt10_7)
  have n: "normalizeIndex (Num 7) (length (accounts threeAccounts)) = Num (int 1)"
    by (simp add: normalizeIndex_def isNaN_def threeAccounts_def)
  have h: "healthOfCandidates (\<lambda>k. 1000) 0 (candidates (accounts threeAccounts) 1)
             (healthTracker threeAccounts) ?kv1 = [True, True, True]"
    by (simp add: candidates_def threeAccounts_def isAccountHealthy_def checkKV_cases emptyKV_def)
  from getAccount_result [OF a r n, of "\<lambda>k. 1000"] r n h show ?thesis
    by (simp add: threeAccounts_def)
qed

text \<open>
  Claim C8, amended. The pool is not empty, the local index is 0 (as the constructor
  sets it, and nothing assigns it), and the index read is not \<open>+Infinity\<close>. Then the
  start index is an index \<open>s\<close> of the array, no access of the scan leaves the array
  (the call raises nothing and returns an element of it), and: \<open>s\<close> is 0 when the
  read raises or the key is absent; when the key holds a text, the index read is
  \<^verbatim>\<open>parseInt(text, 10)\<close>, \<open>s\<close> is 0 when that is NaN or negative, and
  \<open>s\<close> is \<open>v mod N\<close> when that is a number \<open>v \<ge> 0\<close>, so a value of \<open>N\<close> or
  more is reduced modulo \<open>N\<close>, not replaced by 0.
\<close>

theorem rotation_cursor_normalized:
  assumes "accounts m \<noteq> []"
      and "currentAccountIndex m = Num 0"
      and "readRotationIndex m kv = (currentIndex, kv1)"
      and "currentIndex \<noteq> PosInfinity"
  shows "\<exists>s j. s < length (accounts m) \<and> j < length (accounts m) \<and>
           normalizeIndex currentIndex (length (accounts m)) = Num (int s) \<and>
           fst (getAccount clock m kv) = Inr (Some (accounts m ! j)) \<and>
           (raises kv (requests kv) (Get RotationIndexKey) \<or> rotation_index kv = None
              \<longrightarrow> s = 0) \<and>
           (\<forall>stored. \<not> raises kv (requests kv) (Get RotationIndexKey) \<and>
                   rotation_index kv = Some stored \<longrightarrow>
                   currentIndex = parseInt10 stored \<and>
                   (parseInt10 stored = NaN \<or> lessZero (parseInt10 stored) \<longrightarrow> s = 0) \<and>
                   (\<forall>v. parseInt10 stored = Num v \<and> 0 \<le> v \<longrightarrow>
                        s = nat v mod length (accounts m)))"
proof -
  let ?n = "length (accounts m)"
  from assms(1) have n: "0 < ?n" by simp
  from normalizeIndex_finite [OF n assms(4)] obtain s
    where s: "s < ?n" and norm: "normalizeIndex currentIndex ?n = Num (int s)" by blast
  let ?rs = "healthOfCandidates clock 0 (candidates (accounts m) s) (healthTracker m) kv1"
  let ?j = "if length (takeWhile Not ?rs) < ?n then (s + length (takeWhile Not ?rs)) mod ?n else s"
  have j: "?j < ?n" using s n by simp
  have ret: "fst (getAccount clock m kv) = Inr (Some (accounts m ! ?j))"
    using getAccount_result [OF assms(1) assms(3) norm, of clock] by (simp add: Let_def)
  have fallback: "raises kv (requests kv) (Get RotationIndexKey) \<or> rotation_index kv = None
                    \<longrightarrow> s = 0"
  proof
    assume "raises kv (requests kv) (Get RotationIndexKey) \<or> rotation_index kv = None"
    with assms(3) have "currentIndex = currentAccountIndex m"
      by (auto simp: readRotationIndex_def kv_get_rotation_def split: if_splits)
    with assms(2) norm n show "s = 0"
      by (simp add: normalizeIndex_index)
  qed
  have parsed: "\<forall>stored. \<not> raises kv (requests kv) (Get RotationIndexKey) \<and>
                   rotation_index kv = Some stored \<longrightarrow>
                   currentIndex = parseInt10 stored \<and>
                   (parseInt10 stored = NaN \<or> lessZero (parseInt10 stored) \<longrightarrow> s = 0) \<and>
                   (\<forall>v. parseInt10 stored = Num v \<and> 0 \<le> v \<longrightarrow> s = nat v mod ?n)"
  proof (intro allI impI, elim conjE)
    fix stored
    assume "\<not> raises kv (requests kv) (Get RotationIndexKey)" and "rotation_index kv = Some stored"
    with assms(3) have c: "currentIndex = parseInt10 stored"
      by (simp add: readRotationIndex_def kv_get_rotation_def)
    have "parseInt10 stored = NaN \<or> lessZero (parseInt10 stored) \<longrightarrow> s = 0"
      using norm n unfolding c
      by (cases "parseInt10 stored") (auto simp: normalizeIndex_cases)
    moreover have "\<forall>v. parseInt10 stored = Num v \<and> 0 \<le> v \<longrightarrow> s = nat v mod ?n"
      using norm n unfolding c by (auto simp: normalizeIndex_index)
    ultimately show "currentIndex = parseInt10 stored \<and>
                   (parseInt10 stored = NaN \<or> lessZero (parseInt10 stored) \<longrightarrow> s = 0) \<and>
                   (\<forall>v. parseInt10 stored = Num v \<and> 0 \<le> v \<longrightarrow> s = nat v mod ?n)"
      using c by simp
  qed
  show ?thesis
    by (intro exI [of _ s] exI [of _ ?j] conjI s j norm ret fallback parsed)
qed

theorem rotation_cursor_normalized_witness:
  "accounts threeAccounts \<noteq> [] \<and>
   currentAccountIndex threeAccounts = Num 0 \<and>
   readRotationIndex threeAccounts (emptyKV\<lparr>rotation_index := Some ''7''\<rparr>) =
     (Num 7, emptyKV\<lparr>rotation_index := Some ''7'', requests := 1\<rparr>) \<and>
   Num 7 \<noteq> PosInfinity \<and>
   (\<exists>j < 3. normalizeIndex (Num 7) 3 = Num 1 \<and>
      fst (getAccount (\<lambda>k. 1000) threeAccounts (emptyKV\<lparr>rotation_index := Some ''7''\<rparr>)) =
        Inr (Some (accounts threeAccounts ! j)))"
proof -
  let ?kv = "emptyKV\<lparr>rotation_index := Some ''7''\<rparr>"
  let ?kv1 = "emptyKV\<lparr>rotation_index := Some ''7'', requests := 1\<rparr>"
  have a: "accounts threeAccounts \<noteq> []"
    by (simp add: threeAccounts_def)
  have c: "currentAccountIndex threeAccounts = Num 0"
    by (simp add: threeAccounts_def)
  have r: "readRotationIndex threeAccounts ?kv = (Num 7, ?kv1)"
    by (simp add: readRotationIndex_def kv_get_rotation_def emptyKV_def parseInt10_7)
  have f: "Num 7 \<noteq> PosInfinity"
    by simp
  have l: "length (accounts threeAccounts) = 3"
    by (simp add: threeAccounts_def)
  have st: "\<not> raises ?kv (requests ?kv) (Get RotationIndexKey) \<and> rotation_index ?kv = Some ''7''"
    by (simp add: emptyKV_def)
  from rotation_cursor_normalized [OF a c r f, of "\<lambda>k. 1000"] obtain s j where
    sj: "j < 3" "normalizeIndex (Num 7) 3 = Num (int s)"
        "fst (getAccount (\<lambda>k. 1000) threeAccounts ?kv) = Inr (Some (accounts threeAccounts ! j))"
    unfolding l by blast
  have "normalizeIndex (Num 7) 3 = Num 1"
    by (simp add: normalizeIndex_def isNaN_def)
  with sj a c r f show ?thesis
    by blast
qed

subsection \<open>When the call raises\<close>

lemma getAccount_empty_pool:
  "accounts m = [] \<Longrightarrow> getAccount clock m kv = (Inl NoServiceAccountsConfigured, m, kv)"
  by (simp add: getAccount_def)

text \<open>
  Claim C6 says that the call raises only for an empty pool. With one account and,
  in the store, the digit 1 followed by 309 zeros, \<^verbatim>\<open>parseInt\<close> gives
  \<open>+Infinity\<close>, which is neither NaN nor negative; \<^verbatim>\<open>Infinity % 1\<close> is NaN,
  \<^verbatim>\<open>accounts[NaN]\<close> is \<^verbatim>\<open>undefined\<close>, and reading its
  \<^verbatim>\<open>id\<close> raises a TypeError.
\<close>

theorem getAccount_infinite_cursor:
  "accounts oneAccount \<noteq> [] \<and>
   fst (getAccount (\<lambda>k. 1000) oneAccount
          (emptyKV\<lparr>rotation_index := Some (CHR ''1'' # replicate 309 (CHR ''0''))\<rparr>)) =
     Inl TypeError"
proof -
  let ?kv = "emptyKV\<lparr>rotation_index := Some (CHR ''1'' # replicate 309 (CHR ''0''))\<rparr>"
  have r: "fst (readRotationIndex oneAccount ?kv) = PosInfinity"
    by (simp add: readRotationIndex_def kv_get_rotation_def emptyKV_def parseInt10_overflow)
  have n: "normalizeIndex PosInfinity (length (accounts oneAccount)) = NaN"
    by (simp add: normalizeIndex_def isNaN_def)
  have s: "fst (scanAccounts clock (accounts oneAccount) NaN NaN 0 tracker kv) = Inl TypeError"
    for clock tracker kv
    by (subst scanAccounts.simps) (simp add: oneAccount_def)
  have "accounts oneAccount \<noteq> []"
    by (simp add: oneAccount_def)
  then show ?thesis
    using r n s by (simp add: getAccount_def split_beta Let_def)
qed

subsection \<open>Round robin\<close>

lemma readRotationIndex_cursorIs:
  assumes "cursorIs c kv" and "c < 2 ^ 53" and "currentAccountIndex m = Num 0"
      and "\<not> raises kv (requests kv) (Get RotationIndexKey)"
  shows "readRotationIndex m kv = (Num (int c), kv\<lparr>requests := requests kv + 1\<rparr>)"
  using assms
  by (auto simp: cursorIs_def readRotationIndex_def kv_get_rotation_def parseInt10_decimal
                 toNumber_exact)

lemma isAccountHealthy_cooled:
  assumes "allCooledDown T accs tracker kv" and "a \<in> set accs" and "T \<le> now"
      and "isAccountHealthy now (account_id a) tracker kv = (healthy, tracker1, kv1)"
  shows "healthy" and "kv1 = kv\<lparr>requests := requests kv + 1\<rparr>"
    and "allCooledDown T accs tracker1 kv1"
proof -
  from assms(1,2) have
    l: "\<And>h. tracker (account_id a) = Some h \<Longrightarrow> cooldownEnds h \<le> T" and
    s: "\<And>h. account_health kv (account_id a) = Some h \<Longrightarrow> cooldownEnds h \<le> T"
    by (auto simp: allCooledDown_def)
  have nokv: "\<not> (\<exists>h. account_health kv (account_id a) = Some h \<and> now < cooldownEnds h)"
    using s assms(3) by fastforce
  have res: "healthy \<and> kv1 = kv\<lparr>requests := requests kv + 1\<rparr> \<and>
        (tracker1 = tracker \<or>
         (\<exists>h. tracker (account_id a) = Some h \<and>
              tracker1 = tracker(account_id a \<mapsto> h\<lparr>isRateLimited := False\<rparr>)))"
  proof (cases "tracker (account_id a)")
    case None
    with assms(4) nokv show ?thesis
      by (simp add: isAccountHealthy_def checkKV_cases)
  next
    case (Some h)
    with l assms(3) have "\<not> now < cooldownEnds h" by fastforce
    with Some assms(4) nokv show ?thesis
      by (auto simp: isAccountHealthy_def checkKV_cases split: if_splits)
  qed
  then show "healthy" and "kv1 = kv\<lparr>requests := requests kv + 1\<rparr>" by simp_all
  from res assms(1) l show "allCooledDown T accs tracker1 kv1"
    by (auto simp: allCooledDown_def split: if_splits)
qed

lemma toString_index: "toString (Num (int c)) = decimal c"
  by simp

text \<open>One call when nothing is cooling down and the rotation index can be read and written.\<close>

lemma getAccount_step:
  assumes pool: "accounts m \<noteq> []" "length (accounts m) < 2 ^ 32" "currentAccountIndex m = Num 0"
      and cur: "cursorIs c kv" "c < length (accounts m)"
      and rg: "\<forall>n. \<not> raises kv n (Get RotationIndexKey)"
      and rp: "\<forall>n. \<not> raises kv n (Put RotationIndexKey)"
      and cool: "allCooledDown T (accounts m) (healthTracker m) kv"
      and clk: "\<forall>k. T \<le> clock k"
      and res: "getAccount clock m kv = (result, m1, kv1)"
  shows "result = Inr (Some (accounts m ! c))
       \<and> accounts m1 = accounts m \<and> currentAccountIndex m1 = Num 0
       \<and> cursorIs ((c + 1) mod length (accounts m)) kv1
       \<and> raises kv1 = raises kv
       \<and> allCooledDown T (accounts m) (healthTracker m1) kv1"
proof -
  let ?n = "length (accounts m)"
  let ?kv0 = "kv\<lparr>requests := requests kv + 1\<rparr>"
  let ?a = "accounts m ! c"
  have n: "0 < ?n" using pool(1) by simp
  have "(2::nat) ^ 32 \<le> 2 ^ 53" by (rule power_increasing) simp_all
  with pool(2) cur(2) have c53: "c < 2 ^ 53" by linarith
  have rd: "readRotationIndex m kv = (Num (int c), ?kv0)"
    using readRotationIndex_cursorIs [OF cur(1) c53 pool(3)] rg by simp
  have nm: "normalizeIndex (Num (int c)) ?n = Num (int c)"
    using n cur(2) by (simp add: normalizeIndex_index)
  have cool0: "allCooledDown T (accounts m) (healthTracker m) ?kv0"
    using cool by (simp add: allCooledDown_def)
  obtain healthy tracker1 kv2 where
    h: "isAccountHealthy (clock 0) (account_id ?a) (healthTracker m) ?kv0 = (healthy, tracker1, kv2)"
    by (cases "isAccountHealthy (clock 0) (account_id ?a) (healthTracker m) ?kv0") auto
  have mem: "?a \<in> set (accounts m)" using cur(2) by simp
  from clk have t0: "T \<le> clock 0" by simp
  note hc = isAccountHealthy_cooled [OF cool0 mem t0 h]
  let ?kv3 = "snd (kv_put_rotation (decimal ((c + 1) mod ?n)) kv2)"
  have sc: "scanAccounts clock (accounts m) (Num (int c)) (Num (int c)) 0 (healthTracker m) ?kv0
          = (Inr (Some ?a), tracker1, ?kv3)"
    using n cur(2) h hc(1)
    by (subst scanAccounts.simps)
       (simp add: remainder_plusOne toString_index Let_def
             del: remainder.simps plusOne.simps toString.simps)
  have ga: "getAccount clock m kv = (Inr (Some ?a), m\<lparr>healthTracker := tracker1\<rparr>, ?kv3)"
    using pool(1) rd nm sc by (simp add: getAccount_def Let_def)
  have kv3: "rotation_index ?kv3 = Some (decimal ((c + 1) mod ?n))" "raises ?kv3 = raises kv"
            "account_health ?kv3 = account_health kv"
    using rp hc(2) by (simp_all add: kv_put_rotation_def)
  have "allCooledDown T (accounts m) tracker1 ?kv3"
    using hc(3) kv3(3) hc(2) by (simp add: allCooledDown_def)
  with ga res kv3 pool(3) show ?thesis
    by (auto simp: cursorIs_def)
qed

lemma getAccountCalls_from:
  assumes "accounts m \<noteq> []" and "length (accounts m) < 2 ^ 32"
      and "currentAccountIndex m = Num 0"
      and "cursorIs c kv" and "c < length (accounts m)"
      and "\<forall>n. \<not> raises kv n (Get RotationIndexKey)"
      and "\<forall>n. \<not> raises kv n (Put RotationIndexKey)"
      and "allCooledDown T (accounts m) (healthTracker m) kv"
      and "\<forall>clock \<in> set clocks. \<forall>k. T \<le> clock k"
  shows "getAccountCalls clocks m kv =
           map (\<lambda>j. Inr (Some (accounts m ! ((c + j) mod length (accounts m)))))
               [0..<length clocks]"
  using assms
proof (induction clocks arbitrary: m kv c)
  case Nil
  then show ?case by simp
next
  case (Cons clock clocks)
  let ?n = "length (accounts m)"
  obtain result m1 kv1 where g: "getAccount clock m kv = (result, m1, kv1)"
    by (cases "getAccount clock m kv") auto
  from Cons.prems(9) have clk: "\<forall>k. T \<le> clock k"
    and rest: "\<forall>clock \<in> set clocks. \<forall>k. T \<le> clock k" by simp_all
  from getAccount_step [OF Cons.prems(1-8) clk g] have
    r: "result = Inr (Some (accounts m ! c))" and
    a: "accounts m1 = accounts m" and i: "currentAccountIndex m1 = Num 0" and
    cu: "cursorIs ((c + 1) mod ?n) kv1" and ra: "raises kv1 = raises kv" and
    co: "allCooledDown T (accounts m) (healthTracker m1) kv1"
    by simp_all
  have c': "(c + 1) mod ?n < length (accounts m1)"
    using Cons.prems(1) a by simp
  have "getAccountCalls clocks m1 kv1 =
          map (\<lambda>j. Inr (Some (accounts m1 ! (((c + 1) mod ?n + j) mod length (accounts m1)))))
              [0..<length clocks]"
    using Cons.prems(1,2,6,7) i cu co rest c'
    by (intro Cons.IH) (simp_all add: a ra)
  then have "getAccountCalls clocks m1 kv1 =
          map (\<lambda>j. Inr (Some (accounts m ! ((c + Suc j) mod ?n)))) [0..<length clocks]"
    by (simp add: a mod_add_left_eq)
  with g r Cons.prems(5) show ?case
    by (simp add: map_upt_Suc del: upt_Suc)
qed

text \<open>
  Claim C1. The pool has \<open>N \<ge> 1\<close> accounts (fewer than \<open>2^32\<close>, as every
  array has). The store holds no rotation index yet, no read or write of the rotation
  index ever raises, and no account has a record, local or stored, still cooling down
  at any time the calls read (so every health check answers true). Then call number
  \<open>j\<close> of any run of \<^verbatim>\<open>getAccount()\<close> calls returns the account at index
  \<open>j mod N\<close>; in particular \<open>N\<close> calls return the \<open>N\<close> accounts once each, in
  configuration order from index 0, and then the sequence starts again.
\<close>

theorem getAccount_round_robin:
  assumes "accounts m \<noteq> []" and "length (accounts m) < 2 ^ 32"
      and "currentAccountIndex m = Num 0"
      and "rotation_index kv = None"
      and "\<forall>n. \<not> raises kv n (Get RotationIndexKey)"
      and "\<forall>n. \<not> raises kv n (Put RotationIndexKey)"
      and "allCooledDown T (accounts m) (healthTracker m) kv"
      and "\<forall>clock \<in> set clocks. \<forall>k. T \<le> clock k"
  shows "getAccountCalls clocks m kv =
           map (\<lambda>j. Inr (Some (accounts m ! (j mod length (accounts m))))) [0..<length clocks]
       \<and> (length clocks = length (accounts m) \<longrightarrow>
            getAccountCalls clocks m kv = map (\<lambda>a. Inr (Some a)) (accounts m))"
proof -
  let ?n = "length (accounts m)"
  have "cursorIs 0 kv" using assms(4) by (simp add: cursorIs_def)
  moreover have "0 < ?n" using assms(1) by simp
  ultimately have run: "getAccountCalls clocks m kv =
      map (\<lambda>j. Inr (Some (accounts m ! ((0 + j) mod ?n)))) [0..<length clocks]"
    using assms by (intro getAccountCalls_from) simp_all
  then have 1: "getAccountCalls clocks m kv =
      map (\<lambda>j. Inr (Some (accounts m ! (j mod ?n)))) [0..<length clocks]"
    by simp
  have "map (\<lambda>j. Inr (Some (accounts m ! (j mod ?n)))) [0..<?n] =
        map (\<lambda>a. Inr (Some a)) (map ((!) (accounts m)) [0..<?n])"
    by simp
  also have "\<dots> = map (\<lambda>a. Inr (Some a)) (accounts m)"
    by (simp only: map_nth)
  finally have 2: "map (\<lambda>j. Inr (Some (accounts m ! (j mod ?n)))) [0..<?n] =
        map (\<lambda>a. Inr (Some a)) (accounts m)" .
  show ?thesis
  proof (intro conjI impI)
    show "getAccountCalls clocks m kv =
            map (\<lambda>j. Inr (Some (accounts m ! (j mod ?n)))) [0..<length clocks]"
      by (rule 1)
  next
    assume "length clocks = ?n"
    with 1 2 show "getAccountCalls clocks m kv = map (\<lambda>a. Inr (Some a)) (accounts m)"
      by (simp only:)
  qed
qed

theorem getAccount_round_robin_witness:
  "accounts threeAccounts \<noteq> [] \<and> length (accounts threeAccounts) < 2 ^ 32 \<and>
   currentAccountIndex threeAccounts = Num 0 \<and>
   rotation_index emptyKV = None \<and>
   (\<forall>n. \<not> raises emptyKV n (Get RotationIndexKey)) \<and>
   (\<forall>n. \<not> raises emptyKV n (Put RotationIndexKey)) \<and>
   allCooledDown 0 (accounts threeAccounts) (healthTracker threeAccounts) emptyKV \<and>
   getAccountCalls [\<lambda>k. 1000, \<lambda>k. 2000, \<lambda>k. 3000, \<lambda>k. 4000, \<lambda>k. 5000] threeAccounts emptyKV =
     [Inr (Some \<lparr>account_id = 0, credentials = ''A0''\<rparr>),
      Inr (Some \<lparr>account_id = 1, credentials = ''A1''\<rparr>),
      Inr (Some \<lparr>account_id = 2, credentials = ''A2''\<rparr>),
      Inr (Some \<lparr>account_id = 0, credentials = ''A0''\<rparr>),
      Inr (Some \<lparr>account_id = 1, credentials = ''A1''\<rparr>)]"
proof -
  let ?clocks = "[\<lambda>k. 1000, \<lambda>k. 2000, \<lambda>k. 3000, \<lambda>k. 4000, \<lambda>k. 5000] :: (nat \<Rightarrow> int) list"
  have a: "accounts threeAccounts \<noteq> []" by (simp add: threeAccounts_def)
  have l: "length (accounts threeAccounts) < 2 ^ 32" by (simp add: threeAccounts_def)
  have i: "currentAccountIndex threeAccounts = Num 0" by (simp add: threeAccounts_def)
  have r: "rotation_index emptyKV = None" by (simp add: emptyKV_def)
  have g: "\<forall>n. \<not> raises emptyKV n (Get RotationIndexKey)" by (simp add: emptyKV_def)
  have p: "\<forall>n. \<not> raises emptyKV n (Put RotationIndexKey)" by (simp add: emptyKV_def)
  have c: "allCooledDown 0 (accounts threeAccounts) (healthTracker threeAccounts) emptyKV"
    by (simp add: allCooledDown_def threeAccounts_def emptyKV_def)
  have t: "\<forall>clock \<in> set ?clocks. \<forall>k. 0 \<le> clock k" by simp
  have u: "[0..<length ?clocks] = [0, 1, 2, 3, 4]" by (simp add: upt_rec)
  from getAccount_round_robin [OF a l i r g p c t]
  have "getAccountCalls ?clocks threeAccounts emptyKV =
     map (\<lambda>j. Inr (Some (accounts threeAccounts ! (j mod length (accounts threeAccounts)))))
       [0, 1, 2, 3, 4]"
    unfolding u by simp
  then have "getAccountCalls ?clocks threeAccounts emptyKV =
     [Inr (Some \<lparr>account_id = 0, credentials = ''A0''\<rparr>),
      Inr (Some \<lparr>account_id = 1, credentials = ''A1''\<rparr>),
      Inr (Some \<lparr>account_id = 2, credentials = ''A2''\<rparr>),
      Inr (Some \<lparr>account_id = 0, credentials = ''A0''\<rparr>),
      Inr (Some \<lparr>account_id = 1, credentials = ''A1''\<rparr>)]"
    by (simp add: threeAccounts_def)
  with a l i r g p c show ?thesis by blast
qed

subsection \<open>Reporting a failure\<close>

text \<open>
  Claim C9. \<^verbatim>\<open>reportFailure(account, statusCode)\<close> does what
  \<^verbatim>\<open>recordFailure(account.id)\<close> does when the status code is 429 or 503, and
  nothing otherwise; and it leaves the whole state, tracker and store, as it was
  exactly when the status code is neither 429 nor 503.
\<close>

theorem reportFailure_status_codes:
  "reportFailure now now' account statusCode m kv =
     (if statusCode = 429 \<or> statusCode = 503
      then (m\<lparr>healthTracker :=
                 fst (recordFailure now now' (account_id account) (healthTracker m) kv)\<rparr>,
            snd (recordFailure now now' (account_id account) (healthTracker m) kv))
      else (m, kv))
   \<and> (reportFailure now now' account statusCode m kv = (m, kv)
        \<longleftrightarrow> statusCode \<noteq> 429 \<and> statusCode \<noteq> 503)"
proof -
  let ?t = "fst (recordFailure now now' (account_id account) (healthTracker m) kv)"
  have "previousFailureCount ?t (account_id account) =
          previousFailureCount (healthTracker m) (account_id account) + 1"
    by (simp add: recordFailure_local previousFailureCount_def)
  then have "?t \<noteq> healthTracker m"
    by auto
  then have "m\<lparr>healthTracker := ?t\<rparr> \<noteq> m"
    by (metis MultiAccountManager.select_convs(2) MultiAccountManager.surjective
          MultiAccountManager.update_convs(2))
  then show ?thesis
    by (auto simp: reportFailure_def split_beta)
qed

theorem reportFailure_status_codes_witness:
  "reportFailure 0 0 \<lparr>account_id = 1, credentials = ''A1''\<rparr> 404 threeAccounts emptyKV =
     (threeAccounts, emptyKV) \<and>
   healthTracker (fst (reportFailure 0 0 \<lparr>account_id = 1, credentials = ''A1''\<rparr> 429
                         threeAccounts emptyKV)) 1 =
     Some \<lparr>isRateLimited = True, lastRateLimitTime = 0, failureCount = 1, cooldownEnds = 60000\<rparr> \<and>
   account_health (snd (reportFailure 0 0 \<lparr>account_id = 1, credentials = ''A1''\<rparr> 429
                         threeAccounts emptyKV)) 1 =
     Some \<lparr>isRateLimited = True, lastRateLimitTime = 0, failureCount = 1, cooldownEnds = 60000\<rparr>"
  using reportFailure_status_codes [of 0 0 "\<lparr>account_id = 1, credentials = ''A1''\<rparr>" 404
          threeAccounts emptyKV]
        reportFailure_status_codes [of 0 0 "\<lparr>account_id = 1, credentials = ''A1''\<rparr>" 429
          threeAccounts emptyKV]
  by (simp add: recordFailure_def persistHealthToKV_def kv_put_health_def ceilSeconds_def
                previousFailureCount_def DEFAULT_COOLDOWN_MS_def threeAccounts_def emptyKV_def
                Let_def)

section \<open>The failure count\<close>

lemma isAccountHealthy_failureCount:
  assumes "isAccountHealthy now accountId tracker kv = (healthy, tracker1, kv1)"
  shows "previousFailureCount tracker1 a = previousFailureCount tracker a \<or>
         (a = accountId \<and>
          (\<exists>h. account_health kv a = Some h \<and> now < cooldownEnds h \<and> tracker1 a = Some h))"
  using assms
  by (auto simp: isAccountHealthy_def checkKV_cases previousFailureCount_def
           split: option.splits if_splits)

lemma scanAccounts_failureCount:
  assumes "d = length accs - k"
      and "scanAccounts clock accs startIndex currentIndex k tracker kv = (result, tracker1, kv1)"
  shows "previousFailureCount tracker1 a = previousFailureCount tracker a \<or>
         (\<exists>h j. account_health kv a = Some h \<and> clock j < cooldownEnds h \<and>
                previousFailureCount tracker1 a = failureCount h)"
  using assms
proof (induction d arbitrary: currentIndex k tracker kv)
  case 0
  then show ?case
    by (subst (asm) scanAccounts.simps) simp
next
  case (Suc d)
  then have k: "k < length accs" by simp
  show ?case
  proof (cases "arrayGet accs currentIndex")
    case None
    with k Suc.prems(2) show ?thesis
      by (subst (asm) scanAccounts.simps) simp
  next
    case (Some account)
    obtain healthy tracker2 kv2 where
      h: "isAccountHealthy (clock k) (account_id account) tracker kv = (healthy, tracker2, kv2)"
      by (cases "isAccountHealthy (clock k) (account_id account) tracker kv") auto
    note st = isAccountHealthy_store [OF h]
    from isAccountHealthy_failureCount [OF h, of a] have
      one: "previousFailureCount tracker2 a = previousFailureCount tracker a \<or>
            (\<exists>h j. account_health kv a = Some h \<and> clock j < cooldownEnds h \<and>
                   previousFailureCount tracker2 a = failureCount h)"
      by (auto simp: previousFailureCount_def)
    show ?thesis
    proof (cases healthy)
      case True
      with k Some h Suc.prems(2) have "tracker1 = tracker2"
        by (subst (asm) scanAccounts.simps) (simp add: Let_def)
      with one show ?thesis by simp
    next
      case False
      have d: "d = length accs - (k + 1)" using Suc.prems by simp
      from k Some h False Suc.prems(2) have
        "scanAccounts clock accs startIndex (remainder (plusOne currentIndex) (length accs))
           (k + 1) tracker2 kv2 = (result, tracker1, kv1)"
        by (subst (asm) scanAccounts.simps) simp
      from Suc.IH [OF d this] one st(3) show ?thesis
        by auto
    qed
  qed
qed

lemma getAccount_failureCount:
  "failureCountOf (m, kv) a \<le> failureCountOf (snd (getAccount clock m kv)) a \<or>
   (\<exists>h j. account_health kv a = Some h \<and> clock j < cooldownEnds h \<and>
          failureCountOf (snd (getAccount clock m kv)) a = failureCount h)"
proof (cases "accounts m = []")
  case True
  then show ?thesis
    by (simp add: getAccount_def failureCountOf_def)
next
  case False
  obtain currentIndex kv1 where r: "readRotationIndex m kv = (currentIndex, kv1)"
    by (cases "readRotationIndex m kv") auto
  then have ah: "account_health kv1 = account_health kv"
    by (auto simp: readRotationIndex_def kv_get_rotation_def split: if_splits option.splits)
  let ?s = "normalizeIndex currentIndex (length (accounts m))"
  obtain result tracker1 kv2 where
    sc: "scanAccounts clock (accounts m) ?s ?s 0 (healthTracker m) kv1 = (result, tracker1, kv2)"
    by (cases "scanAccounts clock (accounts m) ?s ?s 0 (healthTracker m) kv1") auto
  have ga: "snd (getAccount clock m kv) = (m\<lparr>healthTracker := tracker1\<rparr>, kv2)"
    using False r sc by (simp add: getAccount_def Let_def)
  from scanAccounts_failureCount [OF _ sc, of "length (accounts m)" a] ah show ?thesis
    unfolding ga by (auto simp: failureCountOf_def)
qed

text \<open>
  Claim C7, amended. Across any one operation of the tracker or of the rotator, an
  account's failure count in the worker's tracker does not decrease, with two
  exceptions: \<^verbatim>\<open>recordSuccess\<close> of that account sets it to 0 when the tracker
  has a record of it that counts at least one failure and is not flagged rate limited;
  and a health check of that account, made directly or by \<^verbatim>\<open>getAccount\<close>, that
  finds in the store a record still cooling down puts that record in place of the local
  one, so that the count becomes the stored one.
\<close>

theorem failureCount_steps:
  "failureCountOf (m, kv) accountId \<le> failureCountOf (perform op (m, kv)) accountId
   \<or> (op = RecordSuccess accountId \<and>
       (\<exists>current. healthTracker m accountId = Some current \<and>
                  0 < failureCount current \<and> \<not> isRateLimited current) \<and>
       failureCountOf (perform op (m, kv)) accountId = 0)
   \<or> (\<exists>h now. account_health kv accountId = Some h \<and> now < cooldownEnds h \<and>
          failureCountOf (perform op (m, kv)) accountId = failureCount h \<and>
          (op = IsAccountHealthy now accountId \<or>
           (\<exists>clock j. op = GetAccount clock \<and> now = clock j)))"
proof (cases op)
  case (RecordFailure now now' a)
  then show ?thesis
    by (simp add: failureCountOf_def split_beta recordFailure_local previousFailureCount_def)
next
  case (RecordSuccess a)
  then show ?thesis
    by (auto simp: failureCountOf_def recordSuccess_def previousFailureCount_def
             split: option.splits)
next
  case (IsAccountHealthy now a)
  obtain healthy tracker1 kv1 where
    h: "isAccountHealthy now a (healthTracker m) kv = (healthy, tracker1, kv1)"
    by (cases "isAccountHealthy now a (healthTracker m) kv") auto
  from isAccountHealthy_failureCount [OF h, of accountId] IsAccountHealthy h show ?thesis
    by (auto simp: failureCountOf_def previousFailureCount_def)
next
  case (GetAccount clock)
  with getAccount_failureCount [of m kv accountId clock] show ?thesis
    by auto
next
  case (ReportFailure now now' account statusCode)
  then show ?thesis
    by (simp add: failureCountOf_def reportFailure_def split_beta recordFailure_local
                  previousFailureCount_def)
qed

theorem failureCount_steps_witness:
  "failureCountOf (threeAccounts\<lparr>healthTracker := cooledDown\<rparr>, emptyKV) 1 = 2 \<and>
   failureCountOf (perform (RecordSuccess 1)
                     (threeAccounts\<lparr>healthTracker := cooledDown\<rparr>, emptyKV)) 1 = 0 \<and>
   failureCountOf (perform (RecordFailure 70000 70000 1)
                     (threeAccounts\<lparr>healthTracker := cooledDown\<rparr>, emptyKV)) 1 = 3 \<and>
   failureCountOf (perform (IsAccountHealthy 70000 1)
                     (threeAccounts\<lparr>healthTracker := cooledDown\<rparr>, emptyKV)) 1 = 2"
  using failureCount_steps [of "threeAccounts\<lparr>healthTracker := cooledDown\<rparr>" emptyKV 1
          "RecordSuccess 1"]
        failureCount_steps [of "threeAccounts\<lparr>healthTracker := cooledDown\<rparr>" emptyKV 1
          "RecordFailure 70000 70000 1"]
        failureCount_steps [of "threeAccounts\<lparr>healthTracker := cooledDown\<rparr>" emptyKV 1
          "IsAccountHealthy 70000 1"]
  by (simp add: failureCountOf_def previousFailureCount_def cooledDown_def recordSuccess_def
                recordFailure_local isAccountHealthy_def checkKV_cases emptyKV_def split_beta)

lemma workerA_tracker:
  "fst workerA = [1 \<mapsto> \<lparr>isRateLimited = True, lastRateLimitTime = 1000, failureCount = 2,
                         cooldownEnds = 61000\<rparr>]"
  by (simp add: workerA_def recordFailure_local previousFailureCount_def)

lemma workerB_store:
  "account_health (snd workerB) 1 =
     Some \<lparr>isRateLimited = True, lastRateLimitTime = 100000, failureCount = 1,
           cooldownEnds = 160000\<rparr>"
  "raises (snd workerB) = (\<lambda>n r. False)"
  by (simp_all add: workerB_def workerA_def recordFailure_def persistHealthToKV_def
        kv_put_health_def ceilSeconds_def previousFailureCount_def DEFAULT_COOLDOWN_MS_def
        emptyKV_def Let_def)

text \<open>
  Claim C7 allows a decrease by \<^verbatim>\<open>recordSuccess\<close> only. After worker A has
  counted two failures of account 1 and worker B has stored its first one, a health
  check by worker A at time 100001 takes over the stored record, and the count in
  worker A's tracker falls from 2 to 1.
\<close>

theorem failureCount_decreases_counterexample:
  "failureCountOf (threeAccounts\<lparr>healthTracker := fst workerA\<rparr>, snd workerB) 1 = 2 \<and>
   failureCountOf (perform (IsAccountHealthy 100001 1)
                     (threeAccounts\<lparr>healthTracker := fst workerA\<rparr>, snd workerB)) 1 = 1"
  by (simp add: failureCountOf_def previousFailureCount_def isAccountHealthy_def checkKV_cases
                workerA_tracker workerB_store)

end
